theory Spec2Isabelle
  imports Main "HOL-Library.Sublist"
begin

section \<open>Regular expressions as the bot uses them\<close>

text \<open>
  \<^verbatim>\<open>mibot.go\<close> compiles two patterns with Go's \<^verbatim>\<open>regexp.MustCompile\<close> and uses
  \<^verbatim>\<open>MatchString\<close>, \<^verbatim>\<open>FindStringSubmatch\<close> and \<^verbatim>\<open>SubexpNames\<close> on them. The package is
  modelled by the syntax tree its parser builds (literal, any character but newline,
  concatenation, \<^verbatim>\<open>?\<close>, \<^verbatim>\<open>*\<close>, numbered and optionally named capture) and by a
  backtracking matcher: Go's documented semantics is leftmost-first, the match a
  backtracking search finds first. Strings are byte sequences; \<^verbatim>\<open>.\<close> stops at the
  byte 0x0A only.
\<close>

datatype regex =
    Literal string
  | AnyCharNotNL
  | Concat regex regex
  | Quest regex
  | Star regex
  | Capture nat string regex

definition NL :: char where
  "NL = CHR 0x0A"

definition TAB :: char where
  "TAB = CHR 0x09"

type_synonym caps = "nat \<rightharpoonup> string"

text \<open>A thread of the search: the input still to read and the groups captured so far.\<close>

type_synonym thread = "string \<times> caps"

text \<open>
  Greedy repetition: one more round is tried before stopping, a round that reads
  nothing is dropped, and the fuel is the length of the input left.
\<close>

fun star_iter :: "nat \<Rightarrow> (thread \<Rightarrow> thread list) \<Rightarrow> thread \<Rightarrow> thread list" where
  "star_iter 0 step t = [t]"
| "star_iter (Suc n) step t =
     concat (map (star_iter n step)
       (filter (\<lambda>t'. length (fst t') < length (fst t)) (step t))) @ [t]"

text \<open>All the ways of matching at the start of the input, in the order of preference.\<close>

primrec rmatch :: "regex \<Rightarrow> thread \<Rightarrow> thread list" where
  "rmatch (Literal w) =
     (\<lambda>t. if prefix w (fst t) then [(drop (length w) (fst t), snd t)] else [])"
| "rmatch AnyCharNotNL =
     (\<lambda>t. case fst t of [] \<Rightarrow> [] | x # xs \<Rightarrow> if x = NL then [] else [(xs, snd t)])"
| "rmatch (Concat a b) = (\<lambda>t. concat (map (rmatch b) (rmatch a t)))"
| "rmatch (Quest a) = (\<lambda>t. rmatch a t @ [t])"
| "rmatch (Star a) = (\<lambda>t. star_iter (length (fst t)) (rmatch a) t)"
| "rmatch (Capture i name a) =
     (\<lambda>t. map (\<lambda>t'. (fst t', (snd t')(i \<mapsto> take (length (fst t) - length (fst t')) (fst t))))
            (rmatch a t))"

text \<open>
  The unanchored search: the start positions are tried from the left, and the first
  thread of the first position that matches wins. Group 0 is the whole match.
\<close>

fun doExecute :: "regex \<Rightarrow> string \<Rightarrow> caps option" where
  "doExecute r [] =
     (case rmatch r ([], Map.empty) of
        [] \<Rightarrow> None
      | t # _ \<Rightarrow> Some ((snd t)(0 \<mapsto> [])))"
| "doExecute r (x # xs) =
     (case rmatch r (x # xs, Map.empty) of
        [] \<Rightarrow> doExecute r xs
      | t # _ \<Rightarrow> Some ((snd t)(0 \<mapsto> take (length (x # xs) - length (fst t)) (x # xs))))"

primrec MaxCap :: "regex \<Rightarrow> nat" where
  "MaxCap (Literal w) = 0"
| "MaxCap AnyCharNotNL = 0"
| "MaxCap (Concat a b) = max (MaxCap a) (MaxCap b)"
| "MaxCap (Quest a) = MaxCap a"
| "MaxCap (Star a) = MaxCap a"
| "MaxCap (Capture i name a) = max i (MaxCap a)"

primrec capNames :: "regex \<Rightarrow> string list \<Rightarrow> string list" where
  "capNames (Literal w) names = names"
| "capNames AnyCharNotNL names = names"
| "capNames (Concat a b) names = capNames b (capNames a names)"
| "capNames (Quest a) names = capNames a names"
| "capNames (Star a) names = capNames a names"
| "capNames (Capture i name a) names = capNames a (names[i := name])"

definition SubexpNames :: "regex \<Rightarrow> string list" where
  "SubexpNames r = capNames r (replicate (MaxCap r + 1) [])"

definition MatchString :: "regex \<Rightarrow> string \<Rightarrow> bool" where
  "MatchString r s = (doExecute r s \<noteq> None)"

text \<open>
  \<^verbatim>\<open>FindStringSubmatch\<close> returns nil (here \<open>None\<close>) when nothing matches, and otherwise a
  slice with one entry for the match and one for each group, the empty string for a group
  that took no part.
\<close>

definition FindStringSubmatch :: "regex \<Rightarrow> string \<Rightarrow> string list option" where
  "FindStringSubmatch r s =
     (case doExecute r s of
        None \<Rightarrow> None
      | Some c \<Rightarrow> Some (map (\<lambda>i. case c i of None \<Rightarrow> [] | Some v \<Rightarrow> v) [0..<1 + MaxCap r]))"

text \<open>The two patterns of \<^verbatim>\<open>main\<close>, as parsed.\<close>

definition getDeployRegexp :: regex where
  "getDeployRegexp =
     Concat (Literal ''k'')
    (Concat (Quest (Capture 1 [] (Literal ''ubectl'')))
    (Concat (Literal '' get deploy'')
    (Concat (Quest (Capture 2 [] (Literal ''ment'')))
    (Concat (Quest (Capture 3 [] (Literal ''s'')))
    (Concat (Literal '' -n '')
            (Capture 4 ''namespace'' (Star AnyCharNotNL)))))))"

definition getPodRegexp :: regex where
  "getPodRegexp =
     Concat (Literal ''k'')
    (Concat (Quest (Capture 1 [] (Literal ''ubectl'')))
    (Concat (Literal '' get po'')
    (Concat (Quest (Capture 2 [] (Literal ''d'')))
    (Concat (Quest (Capture 3 [] (Literal ''s'')))
    (Concat (Literal '' -n '')
            (Capture 4 ''namespace'' (Star AnyCharNotNL)))))))"

section \<open>regexpSubexpMatch\<close>

datatype error = Error string

datatype panic = ErrPanic error | IndexOutOfRange

text \<open>\<^verbatim>\<open>match[i]\<close>: indexing a nil slice, or past the end, panics.\<close>

definition index :: "string list option \<Rightarrow> nat \<Rightarrow> panic + string" where
  "index match i =
     (case match of
        None \<Rightarrow> Inl IndexOutOfRange
      | Some xs \<Rightarrow> if i < length xs then Inr (xs ! i) else Inl IndexOutOfRange)"

fun subexpLoop ::
  "string list option \<Rightarrow> nat \<Rightarrow> string list \<Rightarrow> (string \<rightharpoonup> string) \<Rightarrow> panic + (string \<rightharpoonup> string)"
where
  "subexpLoop match i [] m = Inr m"
| "subexpLoop match i (name # names) m =
     (if i \<noteq> 0 then
        (case index match i of
           Inl p \<Rightarrow> Inl p
         | Inr v \<Rightarrow> subexpLoop match (i + 1) names (m(name \<mapsto> v)))
      else subexpLoop match (i + 1) names m)"

definition regexpSubexpMatch :: "regex \<Rightarrow> string \<Rightarrow> panic + (string \<rightharpoonup> string)" where
  "regexpSubexpMatch r str =
     subexpLoop (FindStringSubmatch r str) 0 (SubexpNames r) Map.empty"

text \<open>Reading a Go map: a missing key gives the empty string.\<close>

definition lookup :: "(string \<rightharpoonup> string) \<Rightarrow> string \<Rightarrow> string" where
  "lookup m k = (case m k of None \<Rightarrow> [] | Some v \<Rightarrow> v)"

section \<open>Strings\<close>

text \<open>\<^verbatim>\<open>strings.Contains\<close>: the substring starts at some position of the string.\<close>

fun Contains :: "string \<Rightarrow> string \<Rightarrow> bool" where
  "Contains [] substr = (substr = [])"
| "Contains (x # xs) substr = (prefix substr (x # xs) \<or> Contains xs substr)"

text \<open>\<^verbatim>\<open>strconv.Itoa\<close>: the decimal digits, with a sign for a negative number.\<close>

definition digit :: "nat \<Rightarrow> char" where
  "digit d = char_of (48 + d)"

function digits :: "nat \<Rightarrow> string" where
  "digits n = (if n < 10 then [digit n] else digits (n div 10) @ [digit (n mod 10)])"
  by pat_completeness auto
termination
  by (relation "measure id") auto

definition Itoa :: "int \<Rightarrow> string" where
  "Itoa i = (if i < 0 then CHR ''-'' # digits (nat (- i)) else digits (nat i))"

section \<open>The cluster objects the bot reads\<close>

text \<open>
  The fields of the Kubernetes API objects that \<^verbatim>\<open>main\<close> reads, and the declared
  containers of a pod, which it does not read.
\<close>

record ObjectMeta =
  Name :: string

record Deployment =
  DeploymentMeta :: ObjectMeta

text \<open>\<^verbatim>\<open>State.Running\<close> is a pointer: nil unless the container is running.\<close>

record ContainerState =
  Running :: "string option"

record ContainerStatus =
  State :: ContainerState

record PodSpec =
  Containers :: "string list"

record PodStatus =
  Phase :: string
  ContainerStatuses :: "ContainerStatus list"

record Pod =
  PodMeta :: ObjectMeta
  Spec :: PodSpec
  Status :: PodStatus

text \<open>The two list calls of the client set, by namespace; either may fail.\<close>

record clientset =
  DeploymentsList :: "string \<Rightarrow> error + Deployment list"
  PodsList :: "string \<Rightarrow> error + Pod list"

section \<open>Events and effects\<close>

text \<open>
  The events of the chat connection that the type switch tells apart; the payload of a
  logged event is its rendering by \<^verbatim>\<open>%v\<close>. A message carries its text and its channel.
\<close>

datatype event =
    HelloEvent
  | ConnectedEvent
  | MessageEvent string string
  | PresenceChangeEvent string
  | LatencyReport string
  | DesktopNotificationEvent string
  | RTMError string
  | InvalidAuthEvent
  | OtherEvent

datatype query = ListDeployments string | ListPods string

text \<open>A call of \<^verbatim>\<open>fmt.Printf\<close>: the format and its arguments.\<close>

datatype printed = Printf string "string list"

text \<open>
  What the loop has done so far: the messages sent (text and channel), the calls of
  \<^verbatim>\<open>fmt.Printf\<close>, and the list calls made on the cluster.
\<close>

record world =
  Sent :: "(string \<times> string) list"
  Stdout :: "printed list"
  Queries :: "query list"

datatype status = LoopRunning | Terminated | Aborted panic

section \<open>The replies\<close>

definition fence :: string where
  "fence = [CHR 0x60, CHR 0x60, CHR 0x60]"

definition deploymentsReply :: "Deployment list \<Rightarrow> string" where
  "deploymentsReply items =
     foldl (\<lambda>b d. b @ (Name (DeploymentMeta d) @ [NL])) (fence @ [NL]) items @ fence"

text \<open>The inner loop of the pod listing.\<close>

definition runningContainers :: "ContainerStatus list \<Rightarrow> int" where
  "runningContainers cs =
     foldl (\<lambda>n container. if Running (State container) \<noteq> None then n + 1 else n) 0 cs"

definition podLine :: "Pod \<Rightarrow> string" where
  "podLine po =
     Name (PodMeta po) @ [TAB] @ Phase (Status po) @ [TAB]
       @ Itoa (runningContainers (ContainerStatuses (Status po))) @ ''/''
       @ Itoa (int (length (ContainerStatuses (Status po)))) @ [NL]"

definition podsReply :: "Pod list \<Rightarrow> string" where
  "podsReply items = foldl (\<lambda>b po. b @ podLine po) (fence @ [NL]) items @ fence"

definition helpReply :: string where
  "helpReply =
     fence @ [NL] @ ''kubectl get deploy -n $namespace'' @ [NL]
       @ ''kubectl get po -n $namespace'' @ [NL] @ fence"

definition fallbackReply :: string where
  "fallbackReply =
     ''I'' @ [CHR 0x27] @ ''m mibot. I'' @ [CHR 0x27]
       @ ''m alive, but idk what you want from me! Try help? :narwhal-dancing:''"

section \<open>The dispatch loop\<close>

definition botTagString :: "string \<Rightarrow> string" where
  "botTagString userID = ''<@'' @ userID @ ''>''"

definition send :: "string \<Rightarrow> string \<Rightarrow> world \<Rightarrow> world" where
  "send text channel w = w\<lparr>Sent := Sent w @ [(text, channel)]\<rparr>"

definition printf :: "string \<Rightarrow> string list \<Rightarrow> world \<Rightarrow> world" where
  "printf format args w = w\<lparr>Stdout := Stdout w @ [Printf format args]\<rparr>"

definition ask :: "query \<Rightarrow> world \<Rightarrow> world" where
  "ask q w = w\<lparr>Queries := Queries w @ [q]\<rparr>"

text \<open>The case of a message event, lines 63 to 111.\<close>

definition handleMessage ::
  "string \<Rightarrow> clientset \<Rightarrow> string \<Rightarrow> string \<Rightarrow> world \<Rightarrow> status \<times> world"
where
  "handleMessage userID cs text channel w =
     (if \<not> Contains text (botTagString userID) then (LoopRunning, w)
      else if MatchString getDeployRegexp text then
        (case regexpSubexpMatch getDeployRegexp text of
           Inl p \<Rightarrow> (Aborted p, w)
         | Inr args \<Rightarrow>
             (case DeploymentsList cs (lookup args ''namespace'') of
                Inl err \<Rightarrow>
                  (Aborted (ErrPanic err), ask (ListDeployments (lookup args ''namespace'')) w)
              | Inr items \<Rightarrow>
                  (LoopRunning,
                   send (deploymentsReply items) channel
                     (printf (deploymentsReply items) []
                       (ask (ListDeployments (lookup args ''namespace'')) w)))))
      else if MatchString getPodRegexp text then
        (case regexpSubexpMatch getPodRegexp text of
           Inl p \<Rightarrow> (Aborted p, w)
         | Inr args \<Rightarrow>
             (case PodsList cs (lookup args ''namespace'') of
                Inl err \<Rightarrow>
                  (Aborted (ErrPanic err), ask (ListPods (lookup args ''namespace'')) w)
              | Inr items \<Rightarrow>
                  (LoopRunning,
                   send (podsReply items) channel
                     (printf (podsReply items) []
                       (ask (ListPods (lookup args ''namespace'')) w)))))
      else if Contains text ''help'' then (LoopRunning, send helpReply channel w)
      else (LoopRunning, send fallbackReply channel w))"

text \<open>The body of the loop: the type switch on the event.\<close>

fun handleEvent :: "string \<Rightarrow> clientset \<Rightarrow> event \<Rightarrow> world \<Rightarrow> status \<times> world" where
  "handleEvent userID cs HelloEvent w = (LoopRunning, w)"
| "handleEvent userID cs ConnectedEvent w = (LoopRunning, w)"
| "handleEvent userID cs (MessageEvent text channel) w = handleMessage userID cs text channel w"
| "handleEvent userID cs (PresenceChangeEvent ev) w =
     (LoopRunning, printf (''Presence Change: %v'' @ [NL]) [ev] w)"
| "handleEvent userID cs (LatencyReport v) w =
     (LoopRunning, printf (''Current latency: %v'' @ [NL]) [v] w)"
| "handleEvent userID cs (DesktopNotificationEvent ev) w =
     (LoopRunning, printf (''Desktop Notification: %v'' @ [NL]) [ev] w)"
| "handleEvent userID cs (RTMError e) w = (LoopRunning, printf (''Error: %s'' @ [NL]) [e] w)"
| "handleEvent userID cs InvalidAuthEvent w = (Terminated, printf ''Invalid credentials'' [] w)"
| "handleEvent userID cs OtherEvent w = (LoopRunning, w)"

text \<open>
  The loop over the incoming events, on the events delivered so far: it goes on while
  the body leaves it running, and stops at a return or a panic.
\<close>

fun mainLoop :: "string \<Rightarrow> clientset \<Rightarrow> event list \<Rightarrow> world \<Rightarrow> status \<times> world" where
  "mainLoop userID cs [] w = (LoopRunning, w)"
| "mainLoop userID cs (e # es) w =
     (case handleEvent userID cs e w of
        (LoopRunning, w') \<Rightarrow> mainLoop userID cs es w'
      | (st, w') \<Rightarrow> (st, w'))"

section \<open>Notions used in the statements\<close>

text \<open>The rest of the line: what \<^verbatim>\<open>.*\<close> reads, everything up to the first line break.\<close>

definition restOfLine :: "string \<Rightarrow> string" where
  "restOfLine s = takeWhile (\<lambda>x. x \<noteq> NL) s"

text \<open>The last group of both patterns.\<close>

definition namespaceGroup :: regex where
  "namespaceGroup = Capture 4 ''namespace'' (Star AnyCharNotNL)"

text \<open>The command words that the two patterns read before the namespace.\<close>

definition deployWords :: "string list" where
  "deployWords =
     [''k get deploy -n '', ''k get deploys -n '', ''k get deployment -n '',
      ''k get deployments -n '', ''kubectl get deploy -n '', ''kubectl get deploys -n '',
      ''kubectl get deployment -n '', ''kubectl get deployments -n '']"

definition podWords :: "string list" where
  "podWords =
     [''k get po -n '', ''k get pos -n '', ''k get pod -n '',
      ''k get pods -n '', ''kubectl get po -n '', ''kubectl get pos -n '',
      ''kubectl get pod -n '', ''kubectl get pods -n '']"

text \<open>A pattern matches at the start of a text exactly when one of the words starts it.\<close>

definition acceptsWords :: "regex \<Rightarrow> string list \<Rightarrow> bool" where
  "acceptsWords r ws = (\<forall>s c. rmatch r (s, c) \<noteq> [] \<longleftrightarrow> (\<exists>w \<in> set ws. prefix w s))"

text \<open>
  What the two patterns share: the words they accept start with the only \<^verbatim>\<open>k\<close> they
  hold, the namespace group reads what follows the word, and the names of the groups.
\<close>

definition kCommand :: "regex \<Rightarrow> string list \<Rightarrow> bool" where
  "kCommand r ws =
     (acceptsWords r ws
      \<and> (\<forall>w \<in> set ws. \<exists>v. w = CHR ''k'' # v \<and> CHR ''k'' \<notin> set v)
      \<and> (\<forall>w \<in> set ws. \<forall>X c. \<exists>c'. rmatch r (w @ X, c) = rmatch namespaceGroup (X, c'))
      \<and> SubexpNames r = [[], [], [], [], ''namespace''])"

text \<open>The namespace that the dispatcher passes to the client for a matching text.\<close>

definition namespaceOf :: "regex \<Rightarrow> string \<Rightarrow> string" where
  "namespaceOf r text =
     (case regexpSubexpMatch r text of Inl p \<Rightarrow> [] | Inr args \<Rightarrow> lookup args ''namespace'')"

text \<open>
  The pod line as the specification words it, with the declared containers of the pod as
  the total.
\<close>

definition specPodLine :: "Pod \<Rightarrow> string" where
  "specPodLine po =
     Name (PodMeta po) @ [TAB] @ Phase (Status po) @ [TAB]
       @ Itoa (int (length (filter (\<lambda>c. Running (State c) \<noteq> None) (ContainerStatuses (Status po)))))
       @ ''/'' @ Itoa (int (length (Containers (Spec po))))"


subsection \<open>Sample clusters, pods and worlds\<close>

definition deployment :: "string \<Rightarrow> Deployment" where
  "deployment n = \<lparr>DeploymentMeta = \<lparr>Name = n\<rparr>\<rparr>"

definition prodCluster :: clientset where
  "prodCluster =
     \<lparr>DeploymentsList =
        (\<lambda>ns. if ns = ''prod'' then Inr [deployment ''api'', deployment ''worker'']
              else Inl (Error ''not found'')),
      PodsList = (\<lambda>ns. Inl (Error ''forbidden''))\<rparr>"

definition failingCluster :: clientset where
  "failingCluster =
     \<lparr>DeploymentsList = (\<lambda>ns. Inl (Error ''unreachable'')),
      PodsList = (\<lambda>ns. Inl (Error ''unreachable''))\<rparr>"

definition quietCluster :: clientset where
  "quietCluster =
     \<lparr>DeploymentsList =
        (\<lambda>ns. if ns = ''prod'' then Inr [deployment ''api'', deployment ''worker''] else Inr []),
      PodsList = (\<lambda>ns. Inl (Error ''forbidden''))\<rparr>"

definition emptyWorld :: world where
  "emptyWorld = \<lparr>Sent = [], Stdout = [], Queries = []\<rparr>"

definition containerStatus :: "bool \<Rightarrow> ContainerStatus" where
  "containerStatus running =
     \<lparr>State = \<lparr>Running = (if running then Some ''started'' else None)\<rparr>\<rparr>"

definition apiPod :: Pod where
  "apiPod =
     \<lparr>PodMeta = \<lparr>Name = ''api-1''\<rparr>,
      Spec = \<lparr>Containers = [''app'', ''proxy'', ''logs'']\<rparr>,
      Status = \<lparr>Phase = ''Running'',
                ContainerStatuses =
                  [containerStatus True, containerStatus False, containerStatus True]\<rparr>\<rparr>"

definition pendingPod :: Pod where
  "pendingPod =
     \<lparr>PodMeta = \<lparr>Name = ''api-2''\<rparr>,
      Spec = \<lparr>Containers = [''app'', ''proxy'', ''logs'']\<rparr>,
      Status = \<lparr>Phase = ''Pending'', ContainerStatuses = []\<rparr>\<rparr>"

section \<open>The regular expression engine\<close>

lemma length_capNames: "length (capNames r names) = length names"
  by (induction r arbitrary: names) simp_all

lemma star_any:
  "length s \<le> n \<Longrightarrow>
     \<exists>ts. star_iter n (rmatch AnyCharNotNL) (s, c) = (dropWhile (\<lambda>x. x \<noteq> NL) s, c) # ts"
proof (induction s arbitrary: n)
  case Nil
  then show ?case by (cases n) simp_all
next
  case (Cons x xs)
  then obtain m where n: "n = Suc m" and m: "length xs \<le> m"
    by (cases n) auto
  from Cons.IH [OF m] obtain ts where
    "star_iter m (rmatch AnyCharNotNL) (xs, c) = (dropWhile (\<lambda>x. x \<noteq> NL) xs, c) # ts"
    by blast
  then show ?case by (simp add: n)
qed

lemma take_dropWhile: "take (length s - length (dropWhile P s)) s = takeWhile P s"
proof -
  have "length s = length (takeWhile P s) + length (dropWhile P s)"
    by (metis length_append takeWhile_dropWhile_id)
  then have "length s - length (dropWhile P s) = length (takeWhile P s)" by simp
  then show ?thesis by (simp add: takeWhile_eq_take [symmetric])
qed

lemma rmatch_namespaceGroup:
  "\<exists>ts. rmatch namespaceGroup (s, c)
     = (dropWhile (\<lambda>x. x \<noteq> NL) s, c(4 \<mapsto> restOfLine s)) # ts"
proof -
  obtain ts where "star_iter (length s) (rmatch AnyCharNotNL) (s, c) = (dropWhile (\<lambda>x. x \<noteq> NL) s, c) # ts"
    using star_any [of s "length s" c] by blast
  then show ?thesis by (simp add: take_dropWhile restOfLine_def namespaceGroup_def)
qed

lemma rmatch_namespaceGroup_nonempty [simp]: "rmatch namespaceGroup (s, c) \<noteq> []"
  using rmatch_namespaceGroup [of s c] by auto

lemma rmatch_Literal_Concat:
  "rmatch (Concat (Literal w) b) (s, c) =
     (if prefix w s then rmatch b (drop (length w) s, c) else [])"
  by simp

lemma rmatch_Quest_Concat:
  "rmatch (Concat (Quest (Capture i name (Literal w))) b) (s, c) =
     (if prefix w s then rmatch b (drop (length w) s, c(i \<mapsto> w)) else []) @ rmatch b (s, c)"
  by (simp add: prefix_def) (auto simp: prefix_def)

lemmas rmatch_steps = rmatch_Literal_Concat rmatch_Quest_Concat

lemma getDeployRegexp_unfold:
  "getDeployRegexp =
     Concat (Literal ''k'')
    (Concat (Quest (Capture 1 [] (Literal ''ubectl'')))
    (Concat (Literal '' get deploy'')
    (Concat (Quest (Capture 2 [] (Literal ''ment'')))
    (Concat (Quest (Capture 3 [] (Literal ''s'')))
    (Concat (Literal '' -n '') namespaceGroup)))))"
  by (simp add: getDeployRegexp_def namespaceGroup_def)



lemma namespaceGroup_head:
  "\<exists>t ts. rmatch namespaceGroup (s, c) = t # ts \<and> snd t 4 = Some (restOfLine s)"
  using rmatch_namespaceGroup [of s c] by auto

lemma deploy_word_matches:
  assumes "w \<in> set deployWords"
  shows "\<exists>c'. rmatch getDeployRegexp (w @ X, c) = rmatch namespaceGroup (X, c')"
proof -
  have "w = ''k get deploy -n '' \<or> w = ''k get deploys -n '' \<or> w = ''k get deployment -n '' \<or>
      w = ''k get deployments -n '' \<or> w = ''kubectl get deploy -n '' \<or> w = ''kubectl get deploys -n '' \<or>
      w = ''kubectl get deployment -n '' \<or> w = ''kubectl get deployments -n ''"
    using assms unfolding deployWords_def by simp
  then show ?thesis
    unfolding getDeployRegexp_unfold
    by (elim disjE; simp add: rmatch_steps del: rmatch.simps; blast)
qed

lemma prefix_append_drop: "prefix (a @ w) s \<longleftrightarrow> prefix a s \<and> prefix w (drop (length a) s)"
  by (auto simp: prefix_def)

lemma acceptsWords_namespaceGroup: "acceptsWords namespaceGroup [[]]"
  by (simp add: acceptsWords_def)

lemma acceptsWords_Literal:
  assumes "acceptsWords b ws"
  shows "acceptsWords (Concat (Literal a) b) (map ((@) a) ws)"
  using assms unfolding acceptsWords_def
  by (auto simp add: rmatch_Literal_Concat prefix_append_drop simp del: rmatch.simps)

lemma acceptsWords_Quest:
  assumes "acceptsWords b ws"
  shows "acceptsWords (Concat (Quest (Capture i name (Literal a))) b) (map ((@) a) ws @ ws)"
  unfolding acceptsWords_def
proof (intro allI)
  fix s c
  have b: "\<And>s c. rmatch b (s, c) \<noteq> [] \<longleftrightarrow> (\<exists>w \<in> set ws. prefix w s)"
    using assms by (simp add: acceptsWords_def)
  have "rmatch (Concat (Quest (Capture i name (Literal a))) b) (s, c) \<noteq> [] \<longleftrightarrow>
      (prefix a s \<and> rmatch b (drop (length a) s, c(i \<mapsto> a)) \<noteq> []) \<or> rmatch b (s, c) \<noteq> []"
    by (simp add: rmatch_Quest_Concat del: rmatch.simps)
  also have "\<dots> \<longleftrightarrow> (\<exists>w \<in> set ws. prefix (a @ w) s) \<or> (\<exists>w \<in> set ws. prefix w s)"
    by (simp only: b prefix_append_drop) blast
  also have "\<dots> \<longleftrightarrow> (\<exists>w \<in> set (map ((@) a) ws @ ws). prefix w s)"
    by auto
  finally show "rmatch (Concat (Quest (Capture i name (Literal a))) b) (s, c) \<noteq> [] \<longleftrightarrow>
      (\<exists>w \<in> set (map ((@) a) ws @ ws). prefix w s)" .
qed

lemma acceptsWords_getDeployRegexp: "acceptsWords getDeployRegexp deployWords"
proof -
  have "acceptsWords getDeployRegexp
    (map ((@) ''k'') (map ((@) ''ubectl'') (map ((@) '' get deploy'')
       (map ((@) ''ment'') (map ((@) ''s'') (map ((@) '' -n '') [[]]) @ map ((@) '' -n '') [[]])
         @ (map ((@) ''s'') (map ((@) '' -n '') [[]]) @ map ((@) '' -n '') [[]])))
     @ (map ((@) '' get deploy'')
       (map ((@) ''ment'') (map ((@) ''s'') (map ((@) '' -n '') [[]]) @ map ((@) '' -n '') [[]])
         @ (map ((@) ''s'') (map ((@) '' -n '') [[]]) @ map ((@) '' -n '') [[]])))))"
    unfolding getDeployRegexp_unfold
    by (intro acceptsWords_Literal acceptsWords_Quest acceptsWords_namespaceGroup)
  then show ?thesis
    by (auto simp: acceptsWords_def deployWords_def)
qed


lemma getPodRegexp_unfold:
  "getPodRegexp =
     Concat (Literal ''k'')
    (Concat (Quest (Capture 1 [] (Literal ''ubectl'')))
    (Concat (Literal '' get po'')
    (Concat (Quest (Capture 2 [] (Literal ''d'')))
    (Concat (Quest (Capture 3 [] (Literal ''s'')))
    (Concat (Literal '' -n '') namespaceGroup)))))"
  by (simp add: getPodRegexp_def namespaceGroup_def)

lemma pod_word_matches:
  assumes "w \<in> set podWords"
  shows "\<exists>c'. rmatch getPodRegexp (w @ X, c) = rmatch namespaceGroup (X, c')"
proof -
  have "w = ''k get po -n '' \<or> w = ''k get pos -n '' \<or> w = ''k get pod -n '' \<or>
      w = ''k get pods -n '' \<or> w = ''kubectl get po -n '' \<or> w = ''kubectl get pos -n '' \<or>
      w = ''kubectl get pod -n '' \<or> w = ''kubectl get pods -n ''"
    using assms unfolding podWords_def by simp
  then show ?thesis
    unfolding getPodRegexp_unfold
    by (elim disjE; simp add: rmatch_steps del: rmatch.simps; blast)
qed

lemma acceptsWords_getPodRegexp: "acceptsWords getPodRegexp podWords"
proof -
  have "acceptsWords getPodRegexp
    (map ((@) ''k'') (map ((@) ''ubectl'') (map ((@) '' get po'')
       (map ((@) ''d'') (map ((@) ''s'') (map ((@) '' -n '') [[]]) @ map ((@) '' -n '') [[]])
         @ (map ((@) ''s'') (map ((@) '' -n '') [[]]) @ map ((@) '' -n '') [[]])))
     @ (map ((@) '' get po'')
       (map ((@) ''d'') (map ((@) ''s'') (map ((@) '' -n '') [[]]) @ map ((@) '' -n '') [[]])
         @ (map ((@) ''s'') (map ((@) '' -n '') [[]]) @ map ((@) '' -n '') [[]])))))"
    unfolding getPodRegexp_unfold
    by (intro acceptsWords_Literal acceptsWords_Quest acceptsWords_namespaceGroup)
  then show ?thesis
    by (auto simp: acceptsWords_def podWords_def)
qed

lemma kCommand_getDeployRegexp: "kCommand getDeployRegexp deployWords"
  unfolding kCommand_def
proof (intro conjI ballI allI)
  show "acceptsWords getDeployRegexp deployWords" by (rule acceptsWords_getDeployRegexp)
  show "SubexpNames getDeployRegexp = [[], [], [], [], ''namespace'']"
    by code_simp
  show "\<exists>v. w = CHR ''k'' # v \<and> CHR ''k'' \<notin> set v" if "w \<in> set deployWords" for w
    using that by (auto simp: deployWords_def)
  show "\<exists>c'. rmatch getDeployRegexp (w @ X, c) = rmatch namespaceGroup (X, c')"
    if "w \<in> set deployWords" for w X c
    using that by (rule deploy_word_matches)
qed

lemma kCommand_getPodRegexp: "kCommand getPodRegexp podWords"
  unfolding kCommand_def
proof (intro conjI ballI allI)
  show "acceptsWords getPodRegexp podWords" by (rule acceptsWords_getPodRegexp)
  show "SubexpNames getPodRegexp = [[], [], [], [], ''namespace'']"
    by code_simp
  show "\<exists>v. w = CHR ''k'' # v \<and> CHR ''k'' \<notin> set v" if "w \<in> set podWords" for w
    using that by (auto simp: podWords_def)
  show "\<exists>c'. rmatch getPodRegexp (w @ X, c) = rmatch namespaceGroup (X, c')"
    if "w \<in> set podWords" for w X c
    using that by (rule pod_word_matches)
qed

lemma doExecute_None_iff:
  "doExecute r s = None \<longleftrightarrow> (\<forall>p. suffix p s \<longrightarrow> rmatch r (p, Map.empty) = [])"
proof (induction s)
  case Nil
  show ?case by (auto split: list.splits)
next
  case (Cons x xs)
  show ?case
  proof (cases "rmatch r (x # xs, Map.empty)")
    case Nil
    then show ?thesis by (auto simp: Cons.IH suffix_Cons)
  next
    case (Cons t ts)
    then show ?thesis by (auto simp: suffix_Cons)
  qed
qed

lemma doExecute_skip:
  assumes "\<And>p. p \<noteq> [] \<Longrightarrow> suffix p pre \<Longrightarrow> rmatch r (p @ rest, Map.empty) = []"
  shows "doExecute r (pre @ rest) = doExecute r rest"
  using assms
proof (induction pre)
  case Nil
  show ?case by simp
next
  case (Cons x xs)
  have "rmatch r ((x # xs) @ rest, Map.empty) = []"
    by (rule Cons.prems) simp_all
  moreover have "doExecute r (xs @ rest) = doExecute r rest"
    by (rule Cons.IH) (simp add: Cons.prems suffix_Cons)
  ultimately show ?case by simp
qed

lemma prefix_before_char:
  assumes "x \<notin> set v" and "p \<noteq> []" and "prefix (y # v) (p @ x # z)"
  shows "prefix (y # v) p"
proof -
  from assms(3) consider "prefix (y # v) p" | us where "y # v = p @ us" "prefix us (x # z)"
    by (auto simp: prefix_append)
  then show ?thesis
  proof cases
    case 1
    then show ?thesis .
  next
    case 2
    show ?thesis
    proof (cases us)
      case Nil
      with 2 show ?thesis by simp
    next
      case (Cons u us')
      with 2 have "u = x" by simp
      moreover from assms(2) obtain q qs where "p = q # qs" by (cases p) auto
      ultimately have "v = qs @ x # us'" using 2 Cons by simp
      with assms(1) show ?thesis by simp
    qed
  qed
qed

lemma kCommand_skip:
  assumes k: "kCommand r ws" and pre: "\<not> MatchString r pre"
  shows "doExecute r (pre @ CHR ''k'' # z) = doExecute r (CHR ''k'' # z)"
proof (rule doExecute_skip)
  fix p
  assume p: "p \<noteq> []" "suffix p pre"
  show "rmatch r (p @ CHR ''k'' # z, Map.empty) = []"
  proof (rule ccontr)
    assume "rmatch r (p @ CHR ''k'' # z, Map.empty) \<noteq> []"
    with k obtain w where w: "w \<in> set ws" "prefix w (p @ CHR ''k'' # z)"
      by (auto simp: kCommand_def acceptsWords_def)
    with k obtain v where v: "w = CHR ''k'' # v" "CHR ''k'' \<notin> set v"
      by (auto simp: kCommand_def)
    have "prefix w p"
      unfolding v(1) by (rule prefix_before_char [OF v(2) p(1)]) (use w(2) v(1) in simp)
    with k w(1) have "rmatch r (p, Map.empty) \<noteq> []"
      by (auto simp: kCommand_def acceptsWords_def)
    with p(2) have "doExecute r pre \<noteq> None"
      by (auto simp: doExecute_None_iff)
    with pre show False by (simp add: MatchString_def)
  qed
qed

lemma kCommand_doExecute:
  assumes k: "kCommand r ws" and w: "w \<in> set ws" and pre: "\<not> MatchString r pre"
  shows "\<exists>c. doExecute r (pre @ w @ X) = Some c \<and> c 4 = Some (restOfLine X)"
proof -
  from k w obtain v where v: "w = CHR ''k'' # v"
    by (auto simp: kCommand_def)
  from k w obtain c' where "rmatch r (w @ X, Map.empty) = rmatch namespaceGroup (X, c')"
    unfolding kCommand_def by blast
  with namespaceGroup_head [of X c'] obtain t ts where
    t: "rmatch r (w @ X, Map.empty) = t # ts" "snd t 4 = Some (restOfLine X)"
    by auto
  have "doExecute r (pre @ w @ X) = doExecute r (w @ X)"
    unfolding v using kCommand_skip [OF k pre] by simp
  also have "\<dots> = Some ((snd t)(0 \<mapsto> take (length (w @ X) - length (fst t)) (w @ X)))"
    using t(1) unfolding v by simp
  finally show ?thesis using t(2) by simp
qed

lemma kCommand_namespace:
  assumes k: "kCommand r ws" and w: "w \<in> set ws" and pre: "\<not> MatchString r pre"
  shows "MatchString r (pre @ w @ X) \<and>
     (\<exists>m. regexpSubexpMatch r (pre @ w @ X) = Inr m \<and> lookup m ''namespace'' = restOfLine X)"
proof -
  obtain c where c: "doExecute r (pre @ w @ X) = Some c" "c 4 = Some (restOfLine X)"
    using kCommand_doExecute [OF assms] by blast
  have names: "SubexpNames r = [[], [], [], [], ''namespace'']"
    using k by (simp add: kCommand_def)
  have "length (SubexpNames r) = MaxCap r + 1"
    by (simp add: SubexpNames_def length_capNames)
  then have cap: "MaxCap r = 4" by (simp add: names)
  have four: "Suc (Suc (Suc (Suc 0))) = 4" by simp
  show ?thesis
    using c by (simp add: MatchString_def regexpSubexpMatch_def FindStringSubmatch_def
        names cap index_def lookup_def upt_rec four)
qed


section \<open>The bounds of regexpSubexpMatch\<close>

lemma length_SubexpNames: "length (SubexpNames r) = MaxCap r + 1"
  by (simp add: SubexpNames_def length_capNames)

lemma FindStringSubmatch_length:
  "FindStringSubmatch r s = Some xs \<Longrightarrow> length xs = MaxCap r + 1"
  by (auto simp: FindStringSubmatch_def split: option.splits)

lemma FindStringSubmatch_Some:
  "MatchString r s \<Longrightarrow> \<exists>xs. FindStringSubmatch r s = Some xs"
  by (auto simp: FindStringSubmatch_def MatchString_def split: option.splits)

lemma FindStringSubmatch_None:
  "\<not> MatchString r s \<Longrightarrow> FindStringSubmatch r s = None"
  by (auto simp: FindStringSubmatch_def MatchString_def split: option.splits)

lemma subexpLoop_in_bounds:
  "i + length names \<le> length xs \<Longrightarrow> \<exists>m'. subexpLoop (Some xs) i names m = Inr m'"
  by (induction names arbitrary: i m) (auto simp: index_def)

lemma regexpSubexpMatch_matched:
  assumes "MatchString r s"
  shows "\<exists>m. regexpSubexpMatch r s = Inr m"
proof -
  from assms obtain xs where xs: "FindStringSubmatch r s = Some xs"
    using FindStringSubmatch_Some by blast
  then have "0 + length (SubexpNames r) \<le> length xs"
    by (simp add: FindStringSubmatch_length length_SubexpNames)
  then show ?thesis
    unfolding regexpSubexpMatch_def xs by (rule subexpLoop_in_bounds)
qed

lemma handleMessage_not_index:
  "fst (handleMessage userID cs text channel w) \<noteq> Aborted IndexOutOfRange"
proof -
  have d: "MatchString getDeployRegexp text \<Longrightarrow> \<exists>m. regexpSubexpMatch getDeployRegexp text = Inr m"
    by (rule regexpSubexpMatch_matched)
  have p: "MatchString getPodRegexp text \<Longrightarrow> \<exists>m. regexpSubexpMatch getPodRegexp text = Inr m"
    by (rule regexpSubexpMatch_matched)
  show ?thesis
    using d p by (auto simp: handleMessage_def split: sum.splits)
qed

section \<open>The dispatcher, branch by branch\<close>

lemma Contains_prefix: "prefix sub s \<Longrightarrow> Contains s sub"
  by (cases s) auto

lemma Contains_append: "Contains (sub @ rest) sub"
  by (rule Contains_prefix) simp

lemma world_simps [simp]:
  "Sent (send text channel w) = Sent w @ [(text, channel)]"
  "Stdout (send text channel w) = Stdout w"
  "Queries (send text channel w) = Queries w"
  "Sent (printf f args w) = Sent w"
  "Stdout (printf f args w) = Stdout w @ [Printf f args]"
  "Queries (printf f args w) = Queries w"
  "Sent (ask q w) = Sent w"
  "Stdout (ask q w) = Stdout w"
  "Queries (ask q w) = Queries w @ [q]"
  by (simp_all add: send_def printf_def ask_def)

lemma handleMessage_deploy:
  assumes "Contains text (botTagString userID)" and "MatchString getDeployRegexp text"
  shows "handleMessage userID cs text channel w =
     (case DeploymentsList cs (namespaceOf getDeployRegexp text) of
        Inl err \<Rightarrow>
          (Aborted (ErrPanic err), ask (ListDeployments (namespaceOf getDeployRegexp text)) w)
      | Inr items \<Rightarrow>
          (LoopRunning,
           send (deploymentsReply items) channel
             (printf (deploymentsReply items) []
               (ask (ListDeployments (namespaceOf getDeployRegexp text)) w))))"
proof -
  obtain m where "regexpSubexpMatch getDeployRegexp text = Inr m"
    using regexpSubexpMatch_matched [OF assms(2)] by blast
  then show ?thesis
    using assms by (simp add: handleMessage_def namespaceOf_def split: sum.splits)
qed

lemma handleMessage_pod:
  assumes "Contains text (botTagString userID)" and "\<not> MatchString getDeployRegexp text"
    and "MatchString getPodRegexp text"
  shows "handleMessage userID cs text channel w =
     (case PodsList cs (namespaceOf getPodRegexp text) of
        Inl err \<Rightarrow>
          (Aborted (ErrPanic err), ask (ListPods (namespaceOf getPodRegexp text)) w)
      | Inr items \<Rightarrow>
          (LoopRunning,
           send (podsReply items) channel
             (printf (podsReply items) []
               (ask (ListPods (namespaceOf getPodRegexp text)) w))))"
proof -
  obtain m where "regexpSubexpMatch getPodRegexp text = Inr m"
    using regexpSubexpMatch_matched [OF assms(3)] by blast
  then show ?thesis
    using assms by (simp add: handleMessage_def namespaceOf_def split: sum.splits)
qed

lemma handleMessage_other:
  assumes "Contains text (botTagString userID)" and "\<not> MatchString getDeployRegexp text"
    and "\<not> MatchString getPodRegexp text"
  shows "handleMessage userID cs text channel w =
     (LoopRunning, send (if Contains text ''help'' then helpReply else fallbackReply) channel w)"
  using assms by (simp add: handleMessage_def)

lemma Queries_handle_deploy:
  assumes "Contains text (botTagString userID)" and "MatchString getDeployRegexp text"
  shows "Queries (snd (handleMessage userID cs text channel w))
     = Queries w @ [ListDeployments (namespaceOf getDeployRegexp text)]"
  by (simp add: handleMessage_deploy [OF assms] split: sum.splits)

lemma Queries_handle_pod:
  assumes "Contains text (botTagString userID)" and "\<not> MatchString getDeployRegexp text"
    and "MatchString getPodRegexp text"
  shows "Queries (snd (handleMessage userID cs text channel w))
     = Queries w @ [ListPods (namespaceOf getPodRegexp text)]"
  by (simp add: handleMessage_pod [OF assms] split: sum.splits)





section \<open>The replies, line by line\<close>

lemma foldl_running:
  "foldl (\<lambda>n container. if Running (State container) \<noteq> None then n + 1 else n) k cs
     = k + int (length (filter (\<lambda>c. Running (State c) \<noteq> None) cs))"
  by (induction cs arbitrary: k) simp_all

lemma runningContainers_filter:
  "runningContainers cs = int (length (filter (\<lambda>c. Running (State c) \<noteq> None) cs))"
  unfolding runningContainers_def by (rule trans [OF foldl_running]) simp

lemma foldl_append_lines: "foldl (\<lambda>b x. b @ f x) a xs = a @ concat (map f xs)"
  by (induction xs arbitrary: a) simp_all

lemma Itoa_small: "Itoa 0 = ''0''" "Itoa 2 = ''2''" "Itoa 3 = ''3''"
  by code_simp+

lemma deploymentsReply_lines:
  "deploymentsReply items =
     fence @ [NL] @ concat (map (\<lambda>n. n @ [NL]) (map (\<lambda>d. Name (DeploymentMeta d)) items)) @ fence"
  by (simp add: deploymentsReply_def foldl_append_lines comp_def)

section \<open>Sample commands\<close>

lemma restOfLine_all: "NL \<notin> set X \<Longrightarrow> restOfLine X = X"
  by (auto simp: restOfLine_def)

lemma namespaceOf_command:
  assumes "kCommand r ws" and "w \<in> set ws" and "\<not> MatchString r pre"
  shows "namespaceOf r (pre @ w @ X) = restOfLine X"
  using kCommand_namespace [OF assms, of X] by (auto simp: namespaceOf_def)

lemma prod_command:
  "MatchString getDeployRegexp ''<@U1> k get deploy -n prod''"
  "namespaceOf getDeployRegexp ''<@U1> k get deploy -n prod'' = ''prod''"
proof -
  have p: "\<not> MatchString getDeployRegexp ''<@U1> ''"
    by code_simp
  have w: "''k get deploy -n '' \<in> set deployWords"
    by (simp add: deployWords_def)
  show "MatchString getDeployRegexp ''<@U1> k get deploy -n prod''"
    using kCommand_namespace [OF kCommand_getDeployRegexp w p, of "''prod''"] by simp
  show "namespaceOf getDeployRegexp ''<@U1> k get deploy -n prod'' = ''prod''"
    using namespaceOf_command [OF kCommand_getDeployRegexp w p, of "''prod''"]
    by (simp add: restOfLine_def NL_def)
qed

lemma help_command:
  "Contains ''<@U1> help'' (botTagString ''U1'')"
  "\<not> MatchString getDeployRegexp ''<@U1> help''"
  "\<not> MatchString getPodRegexp ''<@U1> help''"
  "Contains ''<@U1> help'' ''help''"
  by (simp add: botTagString_def, code_simp, code_simp, simp)

section \<open>The claims\<close>

text \<open>
  C1. The two patterns begin with \<^verbatim>\<open>k\<close> or \<^verbatim>\<open>kubectl\<close>. For a text that contains the mention
  token and reads: some text with no earlier match of the pattern, one of the command words
  (\<^verbatim>\<open>k get deploy -n \<close>, \<^verbatim>\<open>kubectl get deployments -n \<close>, and so on), then \<open>X\<close>, the workload
  pattern matches, the namespace parameter is \<open>X\<close> up to its first line break (all of \<open>X\<close>,
  trailing words and punctuation included, when it has none), and the dispatcher lists the
  deployments of that namespace. The same holds of the pod words and the pod listing, for a
  text that the workload pattern, which is tried first, does not match.
\<close>

theorem namespace_is_rest_of_line:
  assumes "Contains (pre @ w @ X) (botTagString userID)"
  shows "(w \<in> set deployWords \<and> \<not> MatchString getDeployRegexp pre \<longrightarrow>
            MatchString getDeployRegexp (pre @ w @ X)
          \<and> (\<exists>m. regexpSubexpMatch getDeployRegexp (pre @ w @ X) = Inr m
                 \<and> lookup m ''namespace'' = restOfLine X)
          \<and> Queries (snd (handleMessage userID cs (pre @ w @ X) channel wd))
              = Queries wd @ [ListDeployments (restOfLine X)])
       \<and> (w \<in> set podWords \<and> \<not> MatchString getPodRegexp pre
            \<and> \<not> MatchString getDeployRegexp (pre @ w @ X) \<longrightarrow>
            MatchString getPodRegexp (pre @ w @ X)
          \<and> (\<exists>m. regexpSubexpMatch getPodRegexp (pre @ w @ X) = Inr m
                 \<and> lookup m ''namespace'' = restOfLine X)
          \<and> Queries (snd (handleMessage userID cs (pre @ w @ X) channel wd))
              = Queries wd @ [ListPods (restOfLine X)])
       \<and> (NL \<notin> set X \<longrightarrow> restOfLine X = X)"
proof (intro conjI impI)
  assume h: "w \<in> set deployWords \<and> \<not> MatchString getDeployRegexp pre"
  then have k: "MatchString getDeployRegexp (pre @ w @ X) \<and>
     (\<exists>m. regexpSubexpMatch getDeployRegexp (pre @ w @ X) = Inr m
        \<and> lookup m ''namespace'' = restOfLine X)"
    by (intro kCommand_namespace [OF kCommand_getDeployRegexp]) simp_all
  then show "MatchString getDeployRegexp (pre @ w @ X)"
    and "\<exists>m. regexpSubexpMatch getDeployRegexp (pre @ w @ X) = Inr m
        \<and> lookup m ''namespace'' = restOfLine X"
    by simp_all
  from k have "namespaceOf getDeployRegexp (pre @ w @ X) = restOfLine X"
    by (auto simp: namespaceOf_def)
  with k show "Queries (snd (handleMessage userID cs (pre @ w @ X) channel wd))
      = Queries wd @ [ListDeployments (restOfLine X)]"
    using Queries_handle_deploy [OF assms, of cs channel wd] by simp
next
  assume h: "w \<in> set podWords \<and> \<not> MatchString getPodRegexp pre
    \<and> \<not> MatchString getDeployRegexp (pre @ w @ X)"
  then have k: "MatchString getPodRegexp (pre @ w @ X) \<and>
     (\<exists>m. regexpSubexpMatch getPodRegexp (pre @ w @ X) = Inr m
        \<and> lookup m ''namespace'' = restOfLine X)"
    by (intro kCommand_namespace [OF kCommand_getPodRegexp]) simp_all
  then show "MatchString getPodRegexp (pre @ w @ X)"
    and "\<exists>m. regexpSubexpMatch getPodRegexp (pre @ w @ X) = Inr m
        \<and> lookup m ''namespace'' = restOfLine X"
    by simp_all
  from k have "namespaceOf getPodRegexp (pre @ w @ X) = restOfLine X"
    by (auto simp: namespaceOf_def)
  with k h show "Queries (snd (handleMessage userID cs (pre @ w @ X) channel wd))
      = Queries wd @ [ListPods (restOfLine X)]"
    using Queries_handle_pod [OF assms, of cs channel wd] by simp
next
  assume "NL \<notin> set X"
  then show "restOfLine X = X" by (rule restOfLine_all)
qed

theorem namespace_is_rest_of_line_witness:
  "Contains (''<@U1> '' @ ''k get deployments -n '' @ ''prod, please'') (botTagString ''U1'')
   \<and> ''k get deployments -n '' \<in> set deployWords
   \<and> \<not> MatchString getDeployRegexp ''<@U1> ''
   \<and> NL \<notin> set ''prod, please''
   \<and> Queries (snd (handleMessage ''U1'' prodCluster
        (''<@U1> '' @ ''k get deployments -n '' @ ''prod, please'') ''C1'' emptyWorld))
       = [ListDeployments ''prod, please'']
   \<and> Contains (''<@U1> '' @ ''kubectl get pod -n '' @ ''kube-system'') (botTagString ''U1'')
   \<and> ''kubectl get pod -n '' \<in> set podWords
   \<and> \<not> MatchString getPodRegexp ''<@U1> ''
   \<and> \<not> MatchString getDeployRegexp (''<@U1> '' @ ''kubectl get pod -n '' @ ''kube-system'')
   \<and> Queries (snd (handleMessage ''U1'' prodCluster
        (''<@U1> '' @ ''kubectl get pod -n '' @ ''kube-system'') ''C1'' emptyWorld))
       = [ListPods ''kube-system'']"
proof -
  have a1: "Contains (''<@U1> '' @ ''k get deployments -n '' @ ''prod, please'') (botTagString ''U1'')"
    by (simp add: botTagString_def)
  have w1: "''k get deployments -n '' \<in> set deployWords"
    by (simp add: deployWords_def)
  have p1: "\<not> MatchString getDeployRegexp ''<@U1> ''"
    by code_simp
  have n1: "NL \<notin> set ''prod, please''"
    by (simp add: NL_def)
  have a2: "Contains (''<@U1> '' @ ''kubectl get pod -n '' @ ''kube-system'') (botTagString ''U1'')"
    by (simp add: botTagString_def)
  have w2: "''kubectl get pod -n '' \<in> set podWords"
    by (simp add: podWords_def)
  have p2: "\<not> MatchString getPodRegexp ''<@U1> ''"
    by code_simp
  have d2: "\<not> MatchString getDeployRegexp (''<@U1> '' @ ''kubectl get pod -n '' @ ''kube-system'')"
    by code_simp
  have n2: "NL \<notin> set ''kube-system''"
    by (simp add: NL_def)
  show ?thesis
    using a1 w1 p1 n1 a2 w2 p2 d2 n2
      namespace_is_rest_of_line [OF a1, of prodCluster "''C1''" emptyWorld]
      namespace_is_rest_of_line [OF a2, of prodCluster "''C1''" emptyWorld]
    by (simp add: emptyWorld_def)
qed

theorem bare_get_deploy_counterexample:
  "Contains ''<@U1> get deploy -n prod'' (botTagString ''U1'')
   \<and> \<not> MatchString getDeployRegexp ''<@U1> get deploy -n prod''
   \<and> Queries (snd (handleMessage ''U1'' prodCluster ''<@U1> get deploy -n prod'' ''C1'' emptyWorld)) = []
   \<and> namespaceOf getDeployRegexp (''<@U1> '' @ ''k get deploy -n '' @ (''prod'' @ [NL] @ ''now''))
       = ''prod''
   \<and> namespaceOf getDeployRegexp (''k get deploy -n a <@U1> '' @ ''k get deploy -n '' @ ''b'')
       = ''a <@U1> k get deploy -n b''
   \<and> Queries (snd (handleMessage ''U1'' prodCluster
        (''<@U1> k get deploy -n a '' @ ''k get po -n '' @ ''b'') ''C1'' emptyWorld))
       = [ListDeployments ''a k get po -n b'']"
proof -
  have q: "\<not> MatchString getDeployRegexp ''<@U1> ''"
    by code_simp
  have w: "''k get deploy -n '' \<in> set deployWords"
    by (simp add: deployWords_def)
  have n: "namespaceOf getDeployRegexp (''<@U1> '' @ ''k get deploy -n '' @ (''prod'' @ [NL] @ ''now''))
       = ''prod''"
    by (simp only: namespaceOf_command [OF kCommand_getDeployRegexp w q])
      (simp add: restOfLine_def NL_def)
  have e: "\<not> MatchString getDeployRegexp []"
    by code_simp
  have "namespaceOf getDeployRegexp ([] @ ''k get deploy -n '' @ ''a <@U1> k get deploy -n b'')
       = ''a <@U1> k get deploy -n b''"
    by (simp only: namespaceOf_command [OF kCommand_getDeployRegexp w e])
      (simp add: restOfLine_def NL_def)
  then have n': "namespaceOf getDeployRegexp (''k get deploy -n a <@U1> '' @ ''k get deploy -n '' @ ''b'')
       = ''a <@U1> k get deploy -n b''"
    by simp
  have a'': "Contains ((''<@U1> '' @ ''k get deploy -n '' @ ''a k get po -n b'')) (botTagString ''U1'')"
    by (simp add: botTagString_def)
  have "Queries (snd (handleMessage ''U1'' prodCluster
        (''<@U1> '' @ ''k get deploy -n '' @ ''a k get po -n b'') ''C1'' emptyWorld))
       = Queries emptyWorld @ [ListDeployments (restOfLine ''a k get po -n b'')]"
    using kCommand_namespace [OF kCommand_getDeployRegexp w q, of "''a k get po -n b''"]
      Queries_handle_deploy [OF a'', of prodCluster "''C1''" emptyWorld]
      namespaceOf_command [OF kCommand_getDeployRegexp w q, of "''a k get po -n b''"]
    by simp
  then have n'': "Queries (snd (handleMessage ''U1'' prodCluster
        (''<@U1> k get deploy -n a '' @ ''k get po -n '' @ ''b'') ''C1'' emptyWorld))
       = [ListDeployments ''a k get po -n b'']"
    by (simp add: restOfLine_def NL_def emptyWorld_def)
  have a: "Contains ''<@U1> get deploy -n prod'' (botTagString ''U1'')"
    by (simp add: botTagString_def)
  have d: "\<not> MatchString getDeployRegexp ''<@U1> get deploy -n prod''"
    by code_simp
  have p: "\<not> MatchString getPodRegexp ''<@U1> get deploy -n prod''"
    by code_simp
  have "Queries (snd (handleMessage ''U1'' prodCluster ''<@U1> get deploy -n prod'' ''C1'' emptyWorld)) = []"
    by (simp add: handleMessage_other [OF a d p] emptyWorld_def)
  with a d n n' n'' show ?thesis
    by blast
qed

text \<open>
  C2. When the client returns the deployments \<^verbatim>\<open>api\<close> and \<^verbatim>\<open>worker\<close> for the namespace
  \<^verbatim>\<open>prod\<close>, the message made of the mention token, a space, a command word of the
  workload pattern (\<^verbatim>\<open>k get deploy -n \<close>, \<^verbatim>\<open>kubectl get deploy -n \<close>, ...) and \<^verbatim>\<open>prod\<close> gets
  one reply, on its channel: the fence, a line break, \<^verbatim>\<open>api\<close> and \<^verbatim>\<open>worker\<close> each followed
  by a line break, and the fence. The mention token is assumed not to hold a command of
  its own.
\<close>

theorem deploy_listing_reply:
  assumes "DeploymentsList cs ''prod'' = Inr items"
    and "map (\<lambda>d. Name (DeploymentMeta d)) items = [''api'', ''worker'']"
    and "\<not> MatchString getDeployRegexp (botTagString userID @ '' '')"
    and "w \<in> set deployWords"
  shows "handleEvent userID cs (MessageEvent (botTagString userID @ '' '' @ w @ ''prod'') channel) wd
      = (LoopRunning,
         send (fence @ [NL] @ ''api'' @ [NL] @ ''worker'' @ [NL] @ fence) channel
           (printf (fence @ [NL] @ ''api'' @ [NL] @ ''worker'' @ [NL] @ fence) []
             (ask (ListDeployments ''prod'') wd)))
    \<and> Sent (snd (handleEvent userID cs
          (MessageEvent (botTagString userID @ '' '' @ w @ ''prod'') channel) wd))
      = Sent wd @ [(fence @ [NL] @ ''api'' @ [NL] @ ''worker'' @ [NL] @ fence, channel)]"
proof -
  let ?text = "(botTagString userID @ '' '') @ w @ ''prod''"
  have a: "Contains ?text (botTagString userID)"
    by (simp add: Contains_append)
  have k: "MatchString getDeployRegexp ?text \<and>
     (\<exists>m. regexpSubexpMatch getDeployRegexp ?text = Inr m
        \<and> lookup m ''namespace'' = restOfLine ''prod'')"
    using assms(3,4) by (intro kCommand_namespace [OF kCommand_getDeployRegexp])
  then have ns: "namespaceOf getDeployRegexp ?text = ''prod''"
    by (auto simp: namespaceOf_def restOfLine_def NL_def)
  have r: "deploymentsReply items = fence @ [NL] @ ''api'' @ [NL] @ ''worker'' @ [NL] @ fence"
    by (simp add: deploymentsReply_lines assms(2))
  have "handleMessage userID cs ?text channel wd
      = (LoopRunning,
         send (fence @ [NL] @ ''api'' @ [NL] @ ''worker'' @ [NL] @ fence) channel
           (printf (fence @ [NL] @ ''api'' @ [NL] @ ''worker'' @ [NL] @ fence) []
             (ask (ListDeployments ''prod'') wd)))"
    using k by (simp only: handleMessage_deploy [OF a] ns assms(1) r sum.case)
  then show ?thesis by simp
qed

theorem deploy_listing_reply_witness:
  "DeploymentsList prodCluster ''prod'' = Inr [deployment ''api'', deployment ''worker'']
   \<and> map (\<lambda>d. Name (DeploymentMeta d)) [deployment ''api'', deployment ''worker''] = [''api'', ''worker'']
   \<and> \<not> MatchString getDeployRegexp (botTagString ''bot'' @ '' '')
   \<and> ''k get deploy -n '' \<in> set deployWords
   \<and> Sent (snd (handleEvent ''bot'' prodCluster (MessageEvent ''<@bot> k get deploy -n prod'' ''C1'') emptyWorld))
       = [(fence @ [NL] @ ''api'' @ [NL] @ ''worker'' @ [NL] @ fence, ''C1'')]"
proof -
  have l: "DeploymentsList prodCluster ''prod'' = Inr [deployment ''api'', deployment ''worker'']"
    by (simp add: prodCluster_def)
  have n: "map (\<lambda>d. Name (DeploymentMeta d)) [deployment ''api'', deployment ''worker''] = [''api'', ''worker'']"
    by (simp add: deployment_def)
  have t: "botTagString ''bot'' @ '' '' = ''<@bot> ''"
    by (simp add: botTagString_def)
  have p: "\<not> MatchString getDeployRegexp (botTagString ''bot'' @ '' '')"
    unfolding t by code_simp
  have w: "''k get deploy -n '' \<in> set deployWords"
    by (simp add: deployWords_def)
  show ?thesis
    using l n p w deploy_listing_reply [OF l n p w, of "''C1''" emptyWorld]
    by (simp add: botTagString_def emptyWorld_def)
qed

theorem bare_get_deploy_reply_counterexample:
  "DeploymentsList prodCluster ''prod'' = Inr [deployment ''api'', deployment ''worker'']
   \<and> Sent (snd (handleEvent ''bot'' prodCluster (MessageEvent ''<@bot> get deploy -n prod'' ''C1'') emptyWorld))
       = [(fallbackReply, ''C1'')]
   \<and> fallbackReply \<noteq> fence @ [NL] @ ''api'' @ [NL] @ ''worker'' @ [NL] @ fence"
proof -
  have a: "Contains ''<@bot> get deploy -n prod'' (botTagString ''bot'')"
    by (simp add: botTagString_def)
  have d: "\<not> MatchString getDeployRegexp ''<@bot> get deploy -n prod''"
    by code_simp
  have p: "\<not> MatchString getPodRegexp ''<@bot> get deploy -n prod''"
    by code_simp
  have h: "\<not> Contains ''<@bot> get deploy -n prod'' ''help''"
    by simp
  show ?thesis
    using h by (simp add: handleMessage_other [OF a d p] emptyWorld_def prodCluster_def
        fallbackReply_def fence_def)
qed

text \<open>
  C3. The pod listing is the fence, a line break, one line for each pod in the order of
  the list, and the fence. The line of a pod is its name, a tab, its phase, a tab, the
  number of its container statuses whose state is running, a slash, the number of its
  container statuses, and a line break. A pod named \<^verbatim>\<open>api-1\<close> in phase \<^verbatim>\<open>Running\<close> with
  three container statuses, two of them running, gives the line \<^verbatim>\<open>api-1 Running 2/3\<close>
  with tabs between the fields.
\<close>

theorem pod_reply_lines:
  "podsReply items =
     fence @ [NL]
       @ concat (map (\<lambda>po. Name (PodMeta po) @ [TAB] @ Phase (Status po) @ [TAB]
           @ Itoa (int (length (filter (\<lambda>c. Running (State c) \<noteq> None) (ContainerStatuses (Status po)))))
           @ ''/'' @ Itoa (int (length (ContainerStatuses (Status po)))) @ [NL]) items)
       @ fence
   \<and> podsReply [apiPod] = fence @ [NL] @ ''api-1'' @ [TAB] @ ''Running'' @ [TAB] @ ''2/3'' @ [NL] @ fence"
proof
  show "podsReply items =
     fence @ [NL]
       @ concat (map (\<lambda>po. Name (PodMeta po) @ [TAB] @ Phase (Status po) @ [TAB]
           @ Itoa (int (length (filter (\<lambda>c. Running (State c) \<noteq> None) (ContainerStatuses (Status po)))))
           @ ''/'' @ Itoa (int (length (ContainerStatuses (Status po)))) @ [NL]) items)
       @ fence"
    by (simp add: podsReply_def foldl_append_lines podLine_def runningContainers_filter)
  show "podsReply [apiPod] = fence @ [NL] @ ''api-1'' @ [TAB] @ ''Running'' @ [TAB] @ ''2/3'' @ [NL] @ fence"
    by (simp add: podsReply_def podLine_def runningContainers_filter apiPod_def containerStatus_def
        Itoa_small)
qed

theorem pod_total_counterexample:
  "length (Containers (Spec pendingPod)) = 3
   \<and> podLine pendingPod = ''api-2'' @ [TAB] @ ''Pending'' @ [TAB] @ ''0/0'' @ [NL]
   \<and> specPodLine pendingPod = ''api-2'' @ [TAB] @ ''Pending'' @ [TAB] @ ''0/3''
   \<and> podLine pendingPod \<noteq> specPodLine pendingPod @ [NL]"
  by (simp add: podLine_def specPodLine_def pendingPod_def runningContainers_filter Itoa_small)

text \<open>
  C4. A message event whose text does not contain the mention token of the bot is ignored:
  the loop goes on and the world is left as it was, so no reply is sent, no list call is
  made and nothing is printed.
\<close>

theorem unaddressed_message_ignored:
  assumes "\<not> Contains text (botTagString userID)"
  shows "handleEvent userID cs (MessageEvent text channel) w = (LoopRunning, w)"
  using assms by (simp add: handleMessage_def)

theorem unaddressed_message_ignored_witness:
  "\<not> Contains ''<@U2> k get deploy -n prod'' (botTagString ''U1'')
   \<and> handleEvent ''U1'' prodCluster (MessageEvent ''<@U2> k get deploy -n prod'' ''C1'') emptyWorld
       = (LoopRunning, emptyWorld)"
proof -
  have h: "\<not> Contains ''<@U2> k get deploy -n prod'' (botTagString ''U1'')"
    by (simp add: botTagString_def)
  show ?thesis
    using h unaddressed_message_ignored [OF h, of prodCluster "''C1''" emptyWorld] by simp
qed

text \<open>
  C5. A message addressed to the bot whose handling does not panic gets exactly one reply,
  on the channel it came from, and the reply is that of the first branch that applies:
  the deployment listing when the workload pattern matches, else the pod listing when the
  pod pattern matches, else the usage text when the text contains \<^verbatim>\<open>help\<close>, else the
  fallback text.
\<close>

theorem one_reply_by_priority:
  assumes "Contains text (botTagString userID)"
    and "fst (handleEvent userID cs (MessageEvent text channel) w) = LoopRunning"
  shows "\<exists>reply.
      Sent (snd (handleEvent userID cs (MessageEvent text channel) w)) = Sent w @ [(reply, channel)]
    \<and> (MatchString getDeployRegexp text \<longrightarrow>
         DeploymentsList cs (namespaceOf getDeployRegexp text) = Inr items \<longrightarrow>
         reply = deploymentsReply items)
    \<and> (\<not> MatchString getDeployRegexp text \<and> MatchString getPodRegexp text \<longrightarrow>
         PodsList cs (namespaceOf getPodRegexp text) = Inr pods \<longrightarrow>
         reply = podsReply pods)
    \<and> (\<not> MatchString getDeployRegexp text \<and> \<not> MatchString getPodRegexp text
          \<and> Contains text ''help'' \<longrightarrow> reply = helpReply)
    \<and> (\<not> MatchString getDeployRegexp text \<and> \<not> MatchString getPodRegexp text
          \<and> \<not> Contains text ''help'' \<longrightarrow> reply = fallbackReply)"
proof (cases "MatchString getDeployRegexp text")
  case True
  with assms show ?thesis
    by (auto simp: handleMessage_deploy split: sum.splits)
next
  case d: False
  show ?thesis
  proof (cases "MatchString getPodRegexp text")
    case True
    with assms d show ?thesis
      by (auto simp: handleMessage_pod split: sum.splits)
  next
    case False
    with assms d show ?thesis
      by (auto simp: handleMessage_other)
  qed
qed

theorem one_reply_by_priority_witness:
  "Contains ''<@U1> k get deploy -n prod'' (botTagString ''U1'')
   \<and> fst (handleEvent ''U1'' prodCluster (MessageEvent ''<@U1> k get deploy -n prod'' ''C1'') emptyWorld)
       = LoopRunning
   \<and> MatchString getDeployRegexp ''<@U1> k get deploy -n prod''
   \<and> DeploymentsList prodCluster (namespaceOf getDeployRegexp ''<@U1> k get deploy -n prod'')
       = Inr [deployment ''api'', deployment ''worker'']
   \<and> Sent (snd (handleEvent ''U1'' prodCluster (MessageEvent ''<@U1> k get deploy -n prod'' ''C1'') emptyWorld))
       = [(deploymentsReply [deployment ''api'', deployment ''worker''], ''C1'')]
   \<and> Contains ''<@U1> help'' (botTagString ''U1'')
   \<and> fst (handleEvent ''U1'' failingCluster (MessageEvent ''<@U1> help'' ''C2'') emptyWorld) = LoopRunning
   \<and> \<not> MatchString getDeployRegexp ''<@U1> help''
   \<and> \<not> MatchString getPodRegexp ''<@U1> help''
   \<and> Contains ''<@U1> help'' ''help''
   \<and> Sent (snd (handleEvent ''U1'' failingCluster (MessageEvent ''<@U1> help'' ''C2'') emptyWorld))
       = [(helpReply, ''C2'')]"
proof -
  have a: "Contains ''<@U1> k get deploy -n prod'' (botTagString ''U1'')"
    by (simp add: botTagString_def)
  have l: "DeploymentsList prodCluster (namespaceOf getDeployRegexp ''<@U1> k get deploy -n prod'')
       = Inr [deployment ''api'', deployment ''worker'']"
    by (simp add: prod_command prodCluster_def)
  have r: "fst (handleEvent ''U1'' prodCluster (MessageEvent ''<@U1> k get deploy -n prod'' ''C1'') emptyWorld)
       = LoopRunning"
    by (simp add: handleMessage_deploy [OF a prod_command(1)] l)
  have r': "fst (handleEvent ''U1'' failingCluster (MessageEvent ''<@U1> help'' ''C2'') emptyWorld)
       = LoopRunning"
    by (simp add: handleMessage_other [OF help_command(1,2,3)])
  show ?thesis
    using a l r r' prod_command(1) help_command
      one_reply_by_priority [OF a r, of "[deployment ''api'', deployment ''worker'']"]
      one_reply_by_priority [OF help_command(1) r']
    by (auto simp: emptyWorld_def)
qed

theorem failed_list_no_reply_counterexample:
  "Contains ''<@U1> k get deploy -n prod'' (botTagString ''U1'')
   \<and> fst (handleEvent ''U1'' failingCluster (MessageEvent ''<@U1> k get deploy -n prod'' ''C1'') emptyWorld)
       = Aborted (ErrPanic (Error ''unreachable''))
   \<and> Sent (snd (handleEvent ''U1'' failingCluster (MessageEvent ''<@U1> k get deploy -n prod'' ''C1'') emptyWorld))
       = []"
proof -
  have a: "Contains ''<@U1> k get deploy -n prod'' (botTagString ''U1'')"
    by (simp add: botTagString_def)
  have f: "fst (handleEvent ''U1'' failingCluster (MessageEvent ''<@U1> k get deploy -n prod'' ''C1'') emptyWorld)
       = Aborted (ErrPanic (Error ''unreachable''))"
    by (simp add: handleMessage_deploy [OF a prod_command(1)] failingCluster_def)
  have s: "Sent (snd (handleEvent ''U1'' failingCluster (MessageEvent ''<@U1> k get deploy -n prod'' ''C1'') emptyWorld))
       = []"
    by (simp add: handleMessage_deploy [OF a prod_command(1)] failingCluster_def emptyWorld_def)
  show ?thesis
    using a f s by blast
qed

text \<open>
  C6. When the list call of a list-workloads or list-pods command fails, the process
  panics with that error: no reply is sent and nothing is printed for the message, and the
  loop handles no later event.
\<close>

theorem list_error_aborts_without_reply:
  assumes "Contains text (botTagString userID)"
  shows "(MatchString getDeployRegexp text
          \<and> DeploymentsList cs (namespaceOf getDeployRegexp text) = Inl err
        \<or> \<not> MatchString getDeployRegexp text \<and> MatchString getPodRegexp text
          \<and> PodsList cs (namespaceOf getPodRegexp text) = Inl err)
     \<longrightarrow> fst (handleEvent userID cs (MessageEvent text channel) w) = Aborted (ErrPanic err)
       \<and> Sent (snd (handleEvent userID cs (MessageEvent text channel) w)) = Sent w
       \<and> Stdout (snd (handleEvent userID cs (MessageEvent text channel) w)) = Stdout w
       \<and> mainLoop userID cs (MessageEvent text channel # es) w
           = handleEvent userID cs (MessageEvent text channel) w"
  using assms
  by (auto simp: handleMessage_deploy handleMessage_pod)

theorem list_error_aborts_without_reply_witness:
  "Contains ''<@U1> k get pods -n prod'' (botTagString ''U1'')
   \<and> \<not> MatchString getDeployRegexp ''<@U1> k get pods -n prod''
   \<and> MatchString getPodRegexp ''<@U1> k get pods -n prod''
   \<and> PodsList failingCluster (namespaceOf getPodRegexp ''<@U1> k get pods -n prod'')
        = Inl (Error ''unreachable'')
   \<and> fst (handleEvent ''U1'' failingCluster (MessageEvent ''<@U1> k get pods -n prod'' ''C1'') emptyWorld)
        = Aborted (ErrPanic (Error ''unreachable''))
   \<and> Sent (snd (handleEvent ''U1'' failingCluster (MessageEvent ''<@U1> k get pods -n prod'' ''C1'') emptyWorld))
        = []"
proof -
  have a: "Contains ''<@U1> k get pods -n prod'' (botTagString ''U1'')"
    by (simp add: botTagString_def)
  have d: "\<not> MatchString getDeployRegexp ''<@U1> k get pods -n prod''"
    by code_simp
  have p: "MatchString getPodRegexp ''<@U1> k get pods -n prod''"
    by code_simp
  have e: "PodsList failingCluster (namespaceOf getPodRegexp ''<@U1> k get pods -n prod'')
        = Inl (Error ''unreachable'')"
    by (simp add: failingCluster_def)
  show ?thesis
    using a d p e
      list_error_aborts_without_reply [OF a, of failingCluster "Error ''unreachable''" "''C1''" emptyWorld "[]"]
    by (simp add: emptyWorld_def)
qed




text \<open>
  C8. The reply to an addressed list command depends on the text and on the result of
  the list call only: two clients that give the same result for the namespace of the
  command, in any two worlds, produce the same reply and the same outcome, and handling
  the message twice with the same client sends the same reply twice.
\<close>

theorem same_list_same_reply:
  assumes "Contains text (botTagString userID)"
    and "MatchString getDeployRegexp text \<or> MatchString getPodRegexp text"
    and "MatchString getDeployRegexp text \<longrightarrow>
         DeploymentsList cs1 (namespaceOf getDeployRegexp text)
           = DeploymentsList cs2 (namespaceOf getDeployRegexp text)"
    and "\<not> MatchString getDeployRegexp text \<longrightarrow>
         PodsList cs1 (namespaceOf getPodRegexp text) = PodsList cs2 (namespaceOf getPodRegexp text)"
  shows "\<exists>replies.
      Sent (snd (handleEvent userID cs1 (MessageEvent text channel) w1)) = Sent w1 @ replies
    \<and> Sent (snd (handleEvent userID cs2 (MessageEvent text channel) w2)) = Sent w2 @ replies
    \<and> fst (handleEvent userID cs1 (MessageEvent text channel) w1)
        = fst (handleEvent userID cs2 (MessageEvent text channel) w2)
    \<and> (fst (handleEvent userID cs1 (MessageEvent text channel) w1) = LoopRunning \<longrightarrow>
         (\<exists>reply. replies = [(reply, channel)]
            \<and> Sent (snd (mainLoop userID cs1 [MessageEvent text channel, MessageEvent text channel] w1))
                = Sent w1 @ [(reply, channel), (reply, channel)]))"
proof (cases "MatchString getDeployRegexp text")
  case True
  note h = handleMessage_deploy [OF assms(1) True]
  from True assms(3) show ?thesis
    by (cases "DeploymentsList cs2 (namespaceOf getDeployRegexp text)") (simp_all add: h)
next
  case False
  with assms(2) have p: "MatchString getPodRegexp text" by simp
  note h = handleMessage_pod [OF assms(1) False p]
  from False assms(4) show ?thesis
    by (cases "PodsList cs2 (namespaceOf getPodRegexp text)") (simp_all add: h)
qed

theorem same_list_same_reply_witness:
  "Contains ''<@U1> k get deploy -n prod'' (botTagString ''U1'')
   \<and> MatchString getDeployRegexp ''<@U1> k get deploy -n prod''
   \<and> DeploymentsList prodCluster (namespaceOf getDeployRegexp ''<@U1> k get deploy -n prod'')
       = DeploymentsList quietCluster (namespaceOf getDeployRegexp ''<@U1> k get deploy -n prod'')
   \<and> fst (handleEvent ''U1'' prodCluster (MessageEvent ''<@U1> k get deploy -n prod'' ''C1'') emptyWorld)
       = LoopRunning
   \<and> Sent (snd (handleEvent ''U1'' prodCluster (MessageEvent ''<@U1> k get deploy -n prod'' ''C1'') emptyWorld))
       = Sent (snd (handleEvent ''U1'' quietCluster (MessageEvent ''<@U1> k get deploy -n prod'' ''C1'') emptyWorld))
   \<and> (\<exists>reply. Sent (snd (mainLoop ''U1'' prodCluster
          [MessageEvent ''<@U1> k get deploy -n prod'' ''C1'',
           MessageEvent ''<@U1> k get deploy -n prod'' ''C1''] emptyWorld))
        = [(reply, ''C1''), (reply, ''C1'')])"
proof -
  have a: "Contains ''<@U1> k get deploy -n prod'' (botTagString ''U1'')"
    by (simp add: botTagString_def)
  have m: "MatchString getDeployRegexp ''<@U1> k get deploy -n prod'' \<or>
      MatchString getPodRegexp ''<@U1> k get deploy -n prod''"
    by (simp add: prod_command)
  have l: "DeploymentsList prodCluster (namespaceOf getDeployRegexp ''<@U1> k get deploy -n prod'')
       = DeploymentsList quietCluster (namespaceOf getDeployRegexp ''<@U1> k get deploy -n prod'')"
    by (simp add: prod_command prodCluster_def quietCluster_def)
  have r: "fst (handleEvent ''U1'' prodCluster (MessageEvent ''<@U1> k get deploy -n prod'' ''C1'') emptyWorld)
       = LoopRunning"
    by (simp add: handleMessage_deploy [OF a prod_command(1)] prod_command prodCluster_def)
  show ?thesis
    using a l r prod_command(1)
      same_list_same_reply [OF a m, of prodCluster quietCluster "''C1''" emptyWorld emptyWorld]
    by (auto simp: emptyWorld_def)
qed

text \<open>
  C9. When \<^verbatim>\<open>MatchString\<close> holds of a pattern and a string, \<^verbatim>\<open>FindStringSubmatch\<close>
  returns a slice, as long as the list of group names, and \<^verbatim>\<open>regexpSubexpMatch\<close> returns a
  map without indexing out of range. The dispatcher calls it under that guard only: no
  event makes the loop panic on an index.
\<close>

theorem regexpSubexpMatch_in_bounds:
  "(MatchString r s \<longrightarrow>
      (\<exists>xs m. FindStringSubmatch r s = Some xs \<and> length xs = length (SubexpNames r)
         \<and> regexpSubexpMatch r s = Inr m))
   \<and> fst (handleEvent userID cs ev w) \<noteq> Aborted IndexOutOfRange"
proof (intro conjI impI)
  assume m: "MatchString r s"
  then obtain xs where xs: "FindStringSubmatch r s = Some xs"
    using FindStringSubmatch_Some by blast
  moreover have "length xs = length (SubexpNames r)"
    using xs by (simp add: FindStringSubmatch_length length_SubexpNames)
  moreover obtain mp where "regexpSubexpMatch r s = Inr mp"
    using regexpSubexpMatch_matched [OF m] by blast
  ultimately show "\<exists>xs m. FindStringSubmatch r s = Some xs \<and> length xs = length (SubexpNames r)
         \<and> regexpSubexpMatch r s = Inr m"
    by blast
next
  show "fst (handleEvent userID cs ev w) \<noteq> Aborted IndexOutOfRange"
    by (cases ev) (simp_all add: handleMessage_not_index)
qed

theorem regexpSubexpMatch_in_bounds_witness:
  "MatchString getPodRegexp ''<@U1> kubectl get pods -n kube-system''
   \<and> FindStringSubmatch getPodRegexp ''<@U1> kubectl get pods -n kube-system''
       = Some [''kubectl get pods -n kube-system'', ''ubectl'', ''d'', ''s'', ''kube-system'']
   \<and> length (SubexpNames getPodRegexp) = 5
   \<and> (\<exists>m. regexpSubexpMatch getPodRegexp ''<@U1> kubectl get pods -n kube-system'' = Inr m)
   \<and> regexpSubexpMatch getPodRegexp ''<@U1> get pods'' = Inl IndexOutOfRange"
proof -
  have m: "MatchString getPodRegexp ''<@U1> kubectl get pods -n kube-system''"
    by code_simp
  have f: "FindStringSubmatch getPodRegexp ''<@U1> kubectl get pods -n kube-system''
       = Some [''kubectl get pods -n kube-system'', ''ubectl'', ''d'', ''s'', ''kube-system'']"
    by code_simp
  have n: "length (SubexpNames getPodRegexp) = 5"
    by code_simp
  have "\<not> MatchString getPodRegexp ''<@U1> get pods''"
    by code_simp
  then have "FindStringSubmatch getPodRegexp ''<@U1> get pods'' = None"
    by (rule FindStringSubmatch_None)
  moreover have "SubexpNames getPodRegexp = [[], [], [], [], ''namespace'']"
    using kCommand_getPodRegexp by (simp add: kCommand_def)
  ultimately have x: "regexpSubexpMatch getPodRegexp ''<@U1> get pods'' = Inl IndexOutOfRange"
    by (simp add: regexpSubexpMatch_def index_def)
  show ?thesis
    using m f n x
      regexpSubexpMatch_in_bounds [of getPodRegexp "''<@U1> kubectl get pods -n kube-system''"]
    by auto
qed

text \<open>
  C10. In the line of a pod the first count is at least zero and at most the second:
  the first is the number of the container statuses whose state is running, the second is
  the length of the same list of container statuses.
\<close>

theorem running_at_most_total:
  "0 \<le> runningContainers (ContainerStatuses (Status po))
   \<and> runningContainers (ContainerStatuses (Status po)) \<le> int (length (ContainerStatuses (Status po)))
   \<and> podLine po = Name (PodMeta po) @ [TAB] @ Phase (Status po) @ [TAB]
       @ Itoa (runningContainers (ContainerStatuses (Status po))) @ ''/''
       @ Itoa (int (length (ContainerStatuses (Status po)))) @ [NL]
   \<and> runningContainers (ContainerStatuses (Status po))
       = int (length (filter (\<lambda>c. Running (State c) \<noteq> None) (ContainerStatuses (Status po))))"
  by (simp add: runningContainers_filter podLine_def)

end
